theory Spec2Isabelle
  imports Complex_Main "HOL-Library.Word" "HOL-Library.AList"
begin

section \<open>Machine types\<close>

text \<open>
  A C++ \<open>int\<close> is a 32-bit word; the header compares such values with the signed
  order (\<open><s\<close>, \<open>\<le>s\<close>) and reads them with \<open>sint\<close>. A \<open>double\<close> is idealised as a
  real number: the header only stores and copies doubles and uses the constants
  \<open>0\<close> and \<open>-1\<close>. A pointer is an optional address, \<open>None\<close> being the null pointer.
\<close>

type_synonym cint = "32 word"
type_synonym double = real
type_synonym addr = nat
type_synonym ptr = "addr option"

section \<open>Order (process.h, lines 59-91)\<close>

text \<open>
  \<open>Rcpp::warning\<close> is modelled by a warning log that every setter returns beside the
  updated object.
\<close>

datatype warning = Warn_priority | Warn_preemptible cint

record Order =
  priority :: cint
  preemptible :: cint
  restart :: bool

definition set_priority :: "cint \<Rightarrow> Order \<Rightarrow> Order \<times> warning list" where
  "set_priority v this =
     (let (v1, w) = (if v <s 0 then (0, [Warn_priority]) else (v, []));
          this1 = this\<lparr>priority := v1\<rparr>;
          this2 = (if preemptible this1 <s priority this1
                   then this1\<lparr>preemptible := priority this1\<rparr> else this1)
      in (this2, w))"

definition get_priority :: "Order \<Rightarrow> cint" where
  "get_priority this = priority this"

definition set_preemptible :: "cint \<Rightarrow> Order \<Rightarrow> Order \<times> warning list" where
  "set_preemptible v this =
     (let (v1, w) = (if v <s priority this
                     then (priority this, [Warn_preemptible (priority this)])
                     else (v, []))
      in (this\<lparr>preemptible := v1\<rparr>, w))"

definition get_preemptible :: "Order \<Rightarrow> cint" where
  "get_preemptible this = preemptible this"

definition set_restart :: "bool \<Rightarrow> Order \<Rightarrow> Order" where
  "set_restart v this = this\<lparr>restart := v\<rparr>"

definition get_restart :: "Order \<Rightarrow> bool" where
  "get_restart this = restart this"

text \<open>
  The constructor has no member initialisers: it runs the three setters on the
  object's uninitialised storage, and \<open>set_priority\<close> reads \<open>preemptible\<close> before any
  write to it. The storage's content is the parameter \<open>uninit\<close>.
\<close>

definition Order_ctor :: "Order \<Rightarrow> cint \<Rightarrow> cint \<Rightarrow> bool \<Rightarrow> Order \<times> warning list" where
  "Order_ctor uninit p pe r =
     (let (this1, w1) = set_priority p uninit;
          (this2, w2) = set_preemptible pe this1
      in (set_restart r this2, w1 @ w2))"

text \<open>A later call of one of the three setters, and a sequence of such calls.\<close>

datatype Order_op = Set_priority cint | Set_preemptible cint | Set_restart bool

fun Order_call :: "Order_op \<Rightarrow> Order \<times> warning list \<Rightarrow> Order \<times> warning list" where
  "Order_call (Set_priority v) (this, ws) =
     (let (this1, w) = set_priority v this in (this1, ws @ w))"
| "Order_call (Set_preemptible v) (this, ws) =
     (let (this1, w) = set_preemptible v this in (this1, ws @ w))"
| "Order_call (Set_restart v) (this, ws) = (set_restart v this, ws)"

definition Order_calls :: "Order_op list \<Rightarrow> Order \<times> warning list \<Rightarrow> Order \<times> warning list" where
  "Order_calls cs s = foldl (\<lambda>s c. Order_call c s) s cs"

definition Order_inv :: "Order \<Rightarrow> bool" where
  "Order_inv this = (0 \<le>s priority this \<and> priority this \<le>s preemptible this)"

section \<open>The free store\<close>

text \<open>
  The clone counter of an Arrival lives in the free store (\<open>new int(1)\<close>), and several
  instances hold its address. The store maps an address to the \<open>int\<close> it holds, or to
  \<open>None\<close> when nothing is allocated there; \<open>freed\<close> logs every \<open>delete\<close>. Reading
  or deleting through an address that holds nothing is a fault.
\<close>

record heap =
  cells :: "addr \<Rightarrow> cint option"
  fresh :: addr
  freed :: "addr list"

datatype fault = Dangling addr

definition new_int :: "cint \<Rightarrow> heap \<Rightarrow> addr \<times> heap" where
  "new_int v h = (fresh h, h\<lparr>cells := (cells h)(fresh h \<mapsto> v), fresh := Suc (fresh h)\<rparr>)"

definition delete_int :: "addr \<Rightarrow> heap \<Rightarrow> fault + heap" where
  "delete_int p h =
     (case cells h p of
        None \<Rightarrow> Inl (Dangling p)
      | Some c \<Rightarrow> Inr (h\<lparr>cells := (cells h)(p := None), freed := freed h @ [p]\<rparr>))"

section \<open>Unordered maps\<close>

text \<open>
  \<open>UMAP<K, V>\<close> is an unordered map. It is modelled by an association list, so that
  the number of entries and the uniqueness of the keys are visible. \<open>umap_at\<close> is
  \<open>operator[]\<close>: it yields the value stored under the key and, when the key is
  missing, first inserts a value-initialised entry. A write through the reference
  that \<open>operator[]\<close> returns is \<open>AList.update\<close> on the resulting list.
\<close>

definition umap_at :: "'v \<Rightarrow> 'k \<Rightarrow> ('k \<times> 'v) list \<Rightarrow> 'v \<times> ('k \<times> 'v) list" where
  "umap_at dflt k m =
     (case map_of m k of
        Some v \<Rightarrow> (v, m)
      | None \<Rightarrow> (dflt, m @ [(k, dflt)]))"

definition keys :: "('k \<times> 'v) list \<Rightarrow> 'k list" where
  "keys m = map fst m"

section \<open>Process, Manager, Generator (process.h, lines 14-42 and 96-131)\<close>

text \<open>
  Modelled from the spec: the base class Entity of entity.h, which is not part of
  the sources at hand. The spec describes it as identity, monitoring flag and owning
  simulator handle; its constructor \<open>Entity(sim, name, mon)\<close> stores the three
  arguments, and a nonzero \<open>mon\<close> means that the entity is monitored.
\<close>

record Process =
  sim :: ptr
  name :: string
  mon :: cint

definition Process_ctor :: "ptr \<Rightarrow> string \<Rightarrow> cint \<Rightarrow> Process" where
  "Process_ctor s n m = \<lparr>sim = s, name = n, mon = m\<rparr>"

definition is_monitored :: "'a Process_scheme \<Rightarrow> bool" where
  "is_monitored e = (mon e \<noteq> 0)"

text \<open>
  Manager. The field \<open>value\<close> is named \<open>value_seq\<close> here. The setter is an external
  callable: it is left out of the record, and its calls are logged in the world
  that \<open>Manager_run\<close> acts on. \<open>index\<close> is an \<open>unsigned int\<close>; it is modelled
  by a natural number, which agrees with it while the sequences have fewer than
  \<open>2 ^ 32\<close> elements, since \<open>index\<close> never exceeds their length.
\<close>

record Manager = Process +
  param :: string
  duration :: "double list"
  value_seq :: "cint list"
  period :: cint
  index :: nat

definition Manager_ctor ::
  "ptr \<Rightarrow> string \<Rightarrow> string \<Rightarrow> double list \<Rightarrow> cint list \<Rightarrow> cint \<Rightarrow> Manager" where
  "Manager_ctor s n p d v per =
     \<lparr>sim = s, name = n, mon = 0, param = p, duration = d, value_seq = v, period = per,
      index = 0\<rparr>"

definition Manager_reset :: "Manager \<Rightarrow> Manager" where
  "Manager_reset m = m\<lparr>index := 0\<rparr>"

text \<open>
  Generator. The distribution provider \<open>dist\<close> is an external function with a state
  of its own: \<open>dist_gen k\<close> is what its call number \<open>k\<close> returns, and \<open>dist_calls\<close>
  counts the calls made so far. What it returns is a finite number or not.
  The fields \<open>count\<close>, \<open>dist\<close> and \<open>order\<close> carry the suffix \<open>_gen\<close>. \<open>reset\<close> sets
  the count to 0 and calls the provider's own reset function, which is taken to
  start the provider's sequence again.
\<close>

datatype sample = Finite double | NonFinite

record Generator = Process +
  count_gen :: cint
  first_activity :: ptr
  dist_gen :: "nat \<Rightarrow> sample"
  dist_calls :: nat
  order_gen :: Order

definition Generator_ctor ::
  "ptr \<Rightarrow> string \<Rightarrow> cint \<Rightarrow> ptr \<Rightarrow> (nat \<Rightarrow> sample) \<Rightarrow> Order \<Rightarrow> Generator" where
  "Generator_ctor s n m fa d ord =
     \<lparr>sim = s, name = n, mon = m, count_gen = 0, first_activity = fa, dist_gen = d,
      dist_calls = 0, order_gen = ord\<rparr>"

definition Generator_reset :: "Generator \<Rightarrow> Generator" where
  "Generator_reset g = g\<lparr>count_gen := 0, dist_calls := 0\<rparr>"

definition get_n_generated :: "Generator \<Rightarrow> cint" where
  "get_n_generated g = count_gen g"

section \<open>Arrival (process.h, lines 136-187)\<close>

record ArrTime =
  start :: double
  activity :: double
  busy_until :: double
  remaining :: double

definition ArrTime_ctor :: ArrTime where
  "ArrTime_ctor = \<lparr>start = -1, activity = 0, busy_until = -1, remaining = 0\<rparr>"

text \<open>
  The pointer to the current activity is the field \<open>activity_ptr\<close>, since \<open>activity\<close>
  is a field of \<open>ArrTime\<close> as well; likewise the overload \<open>set_activity(Activity*)\<close> is
  \<open>set_activity_ptr\<close>.
\<close>

record Arrival = Process +
  clones :: addr
  order :: Order
  lifetime :: ArrTime
  restime :: "(string \<times> ArrTime) list"
  activity_ptr :: ptr
  attributes :: "(string \<times> double) list"
  selected :: "(cint \<times> ptr) list"

text \<open>
  The constructor, with the fields that a derived class adds as the argument \<open>ext\<close>.
  Members without an initialiser are default-constructed: \<open>lifetime\<close> by \<open>ArrTime()\<close>,
  the three maps empty.
\<close>

definition Arrival_ctor_more ::
  "ptr \<Rightarrow> string \<Rightarrow> cint \<Rightarrow> Order \<Rightarrow> ptr \<Rightarrow> 'a \<Rightarrow> heap \<Rightarrow> 'a Arrival_scheme \<times> heap" where
  "Arrival_ctor_more s n m ord fa ext h =
     (let (p, h1) = new_int 1 h
      in (\<lparr>sim = s, name = n, mon = m, clones = p, order = ord, lifetime = ArrTime_ctor,
           restime = [], activity_ptr = fa, attributes = [], selected = [], \<dots> = ext\<rparr>, h1))"

definition Arrival_ctor ::
  "ptr \<Rightarrow> string \<Rightarrow> cint \<Rightarrow> Order \<Rightarrow> ptr \<Rightarrow> heap \<Rightarrow> Arrival \<times> heap" where
  "Arrival_ctor s n m ord fa h = Arrival_ctor_more s n m ord fa () h"

text \<open>The destructor: \<open>if (!--(*clones)) delete clones;\<close>\<close>

definition Arrival_dtor :: "'a Arrival_scheme \<Rightarrow> heap \<Rightarrow> fault + heap" where
  "Arrival_dtor a h =
     (case cells h (clones a) of
        None \<Rightarrow> Inl (Dangling (clones a))
      | Some c \<Rightarrow>
          (let h1 = h\<lparr>cells := (cells h)(clones a \<mapsto> c - 1)\<rparr>
           in if c - 1 = 0 then delete_int (clones a) h1 else Inr h1))"

text \<open>Destroying several instances one after the other; the first fault stops the run.\<close>

fun destroy_all :: "'a Arrival_scheme list \<Rightarrow> heap \<Rightarrow> fault + heap" where
  "destroy_all [] h = Inr h"
| "destroy_all (a # as) h =
     (case Arrival_dtor a h of Inl e \<Rightarrow> Inl e | Inr h1 \<Rightarrow> destroy_all as h1)"

text \<open>
  Modelled from the spec: the macro \<open>CLONEABLE_COUNT\<close>, which is not part of the
  sources at hand. By the spec the clones of an Arrival share one clone counter
  whose value is the number of instances: \<open>clone()\<close> increments the shared counter
  and returns a copy of the instance, which holds the same counter address.
\<close>

definition clone :: "'a Arrival_scheme \<Rightarrow> heap \<Rightarrow> fault + ('a Arrival_scheme \<times> heap)" where
  "clone a h =
     (case cells h (clones a) of
        None \<Rightarrow> Inl (Dangling (clones a))
      | Some c \<Rightarrow> Inr (a, h\<lparr>cells := (cells h)(clones a \<mapsto> c + 1)\<rparr>))"

text \<open>\<open>clone_times n a\<close> clones \<open>a\<close> \<open>n\<close> times and yields the clones.\<close>

fun clone_times ::
  "nat \<Rightarrow> 'a Arrival_scheme \<Rightarrow> heap \<Rightarrow> fault + ('a Arrival_scheme list \<times> heap)" where
  "clone_times 0 a h = Inr ([], h)"
| "clone_times (Suc n) a h =
     (case clone a h of
        Inl e \<Rightarrow> Inl e
      | Inr (b, h1) \<Rightarrow>
          (case clone_times n a h1 of
             Inl e \<Rightarrow> Inl e
           | Inr (bs, h2) \<Rightarrow> Inr (b # bs, h2)))"

text \<open>The accessors whose bodies the header gives.\<close>

definition get_attributes :: "'a Arrival_scheme \<Rightarrow> (string \<times> double) list" where
  "get_attributes a = attributes a"

definition get_remaining :: "'a Arrival_scheme \<Rightarrow> double" where
  "get_remaining a = remaining (lifetime a)"

definition set_start :: "string \<Rightarrow> double \<Rightarrow> 'a Arrival_scheme \<Rightarrow> 'a Arrival_scheme" where
  "set_start nm v a =
     (let (t, m) = umap_at ArrTime_ctor nm (restime a)
      in a\<lparr>restime := AList.update nm (t\<lparr>start := v\<rparr>) m\<rparr>)"

definition set_activity_ptr :: "ptr \<Rightarrow> 'a Arrival_scheme \<Rightarrow> 'a Arrival_scheme" where
  "set_activity_ptr p a = a\<lparr>activity_ptr := p\<rparr>"

definition set_activity :: "string \<Rightarrow> double \<Rightarrow> 'a Arrival_scheme \<Rightarrow> 'a Arrival_scheme" where
  "set_activity nm v a =
     (let (t, m) = umap_at ArrTime_ctor nm (restime a)
      in a\<lparr>restime := AList.update nm (t\<lparr>activity := v\<rparr>) m\<rparr>)"

definition get_activity :: "string \<Rightarrow> 'a Arrival_scheme \<Rightarrow> double \<times> 'a Arrival_scheme" where
  "get_activity nm a =
     (let (t, m) = umap_at ArrTime_ctor nm (restime a)
      in (activity t, a\<lparr>restime := m\<rparr>))"

definition set_selected :: "cint \<Rightarrow> ptr \<Rightarrow> 'a Arrival_scheme \<Rightarrow> 'a Arrival_scheme" where
  "set_selected i res a =
     (let (r, m) = umap_at None i (selected a)
      in a\<lparr>selected := AList.update i res m\<rparr>)"

definition get_selected :: "cint \<Rightarrow> 'a Arrival_scheme \<Rightarrow> ptr \<times> 'a Arrival_scheme" where
  "get_selected i a =
     (let (r, m) = umap_at None i (selected a)
      in (r, a\<lparr>selected := m\<rparr>))"

text \<open>A call of one of these accessors, and a sequence of such calls.\<close>

datatype Arrival_op =
    Get_attributes
  | Get_remaining
  | Set_start string double
  | Set_activity_ptr ptr
  | Set_activity string double
  | Get_activity string
  | Set_selected cint ptr
  | Get_selected cint

fun Arrival_call :: "Arrival_op \<Rightarrow> 'a Arrival_scheme \<Rightarrow> 'a Arrival_scheme" where
  "Arrival_call Get_attributes a = a"
| "Arrival_call Get_remaining a = a"
| "Arrival_call (Set_start nm v) a = set_start nm v a"
| "Arrival_call (Set_activity_ptr p) a = set_activity_ptr p a"
| "Arrival_call (Set_activity nm v) a = set_activity nm v a"
| "Arrival_call (Get_activity nm) a = snd (get_activity nm a)"
| "Arrival_call (Set_selected i res) a = set_selected i res a"
| "Arrival_call (Get_selected i) a = snd (get_selected i a)"

definition Arrival_calls :: "Arrival_op list \<Rightarrow> 'a Arrival_scheme \<Rightarrow> 'a Arrival_scheme" where
  "Arrival_calls cs a = foldl (\<lambda>a c. Arrival_call c a) a cs"

text \<open>
  The resources that a sequence of calls visits are those for which it records a
  start or an activity time; the resources it names are those and the ones whose
  activity time it only reads.
\<close>

fun visits :: "Arrival_op \<Rightarrow> string list" where
  "visits (Set_start nm v) = [nm]"
| "visits (Set_activity nm v) = [nm]"
| "visits c = []"

fun names_resource :: "Arrival_op \<Rightarrow> string list" where
  "names_resource (Set_start nm v) = [nm]"
| "names_resource (Set_activity nm v) = [nm]"
| "names_resource (Get_activity nm) = [nm]"
| "names_resource c = []"

definition visited :: "Arrival_op list \<Rightarrow> string set" where
  "visited cs = set (concat (map visits cs))"

definition named :: "Arrival_op list \<Rightarrow> string set" where
  "named cs = set (concat (map names_resource cs))"

section \<open>Batched (process.h, lines 192-221)\<close>

record Batched = Arrival +
  arrivals :: "Arrival list"
  permanent :: bool

text \<open>
  The constructor passes \<open>true\<close> for \<open>mon\<close> (the \<open>int\<close> 1) and a default-constructed
  \<open>Order()\<close>, that is \<open>Order(0, 0, false)\<close> built on uninitialised storage \<open>uninit\<close>.
\<close>

definition Batched_ctor ::
  "Order \<Rightarrow> ptr \<Rightarrow> string \<Rightarrow> ptr \<Rightarrow> bool \<Rightarrow> heap \<Rightarrow> (Batched \<times> heap) \<times> warning list" where
  "Batched_ctor uninit s n batcher perm h =
     (let (ord, ws) = Order_ctor uninit 0 0 False
      in (Arrival_ctor_more s n 1 ord batcher \<lparr>arrivals = [], permanent = perm\<rparr> h, ws))"

definition is_permanent :: "Batched \<Rightarrow> bool" where
  "is_permanent b = permanent b"

section \<open>Operations that the header only declares\<close>

text \<open>
  The header declares \<open>Arrival::set_attribute\<close>, \<open>Arrival::leave\<close>,
  \<open>Batched::terminate\<close>, \<open>Generator::run\<close> and \<open>Manager::run\<close>; their bodies are in a
  source file that is not at hand. Each is modelled below from the words of the
  spec, on the records above.
\<close>

subsection \<open>Attributes\<close>

datatype attr_status = Created | Updated

text \<open>
  Modelled from the spec: the body of \<open>Arrival::set_attribute\<close>. "Inserts or
  overwrites \<open>attributes[key]\<close>; returns a status distinguishing created vs updated
  for monitoring purposes; never fails (absent keys are simply created)."
\<close>

definition set_attribute ::
  "string \<Rightarrow> double \<Rightarrow> 'a Arrival_scheme \<Rightarrow> attr_status \<times> 'a Arrival_scheme" where
  "set_attribute key v a =
     (if map_of (attributes a) key = None then Created else Updated,
      a\<lparr>attributes := AList.update key v (attributes a)\<rparr>)"

text \<open>
  Modelled from the spec: the read of one attribute, for which the header has no
  function (\<open>get_attributes\<close> hands out the whole map). "Reading an attribute for a
  key never set must return a well-defined default (0 for numeric attributes)
  rather than failing."
\<close>

definition get_attribute :: "string \<Rightarrow> 'a Arrival_scheme \<Rightarrow> double" where
  "get_attribute key a = (case map_of (attributes a) key of None \<Rightarrow> 0 | Some v \<Rightarrow> v)"

subsection \<open>Leaving a resource\<close>

text \<open>
  Modelled from the spec: the body of \<open>Arrival::leave\<close>. "Computes
  \<open>remaining = max(0, busy_until - now)\<close> for that resource's TimeSpan when the order
  disallows restart; when \<open>order.restart\<close> is true, discards the partial progress
  instead (\<open>remaining\<close> reset to the full original service requirement, to be
  re-derived when service resumes from scratch). Updates \<open>activity_time\<close> with
  elapsed time since \<open>start\<close>." The simulator's clock \<open>now\<close>
  and the full service requirement \<open>full\<close>, which no field of the Arrival holds, are
  arguments; \<open>activity_time\<close> is cumulative, so the elapsed time is added to it.
\<close>

definition leave ::
  "double \<Rightarrow> double \<Rightarrow> string \<Rightarrow> 'a Arrival_scheme \<Rightarrow> 'a Arrival_scheme" where
  "leave now full resource a =
     (let (t, m) = umap_at ArrTime_ctor resource (restime a);
          t1 = t\<lparr>remaining := (if restart (order a) then full
                                else max 0 (busy_until t - now))\<rparr>;
          t2 = t1\<lparr>activity := activity t1 + (now - start t1)\<rparr>
      in a\<lparr>restime := AList.update resource t2 m\<rparr>)"

subsection \<open>Terminating a batch\<close>

text \<open>
  The part of the simulator that a termination acts on: the arrivals handed back to
  the scheduler, each to go on from its own \<open>activity_ptr\<close>, and the monitoring
  sink, which holds for every finalized arrival (by name) its terminal record.
\<close>

record terminal_record =
  rec_name :: string
  rec_lifetime :: ArrTime
  rec_attributes :: "(string \<times> double) list"
  rec_finished :: bool

record term_world =
  resumed :: "Arrival list"
  finalized :: "(string \<times> terminal_record) list"

text \<open>
  Modelled from the spec: the body of \<open>Batched::terminate\<close>. "If
  \<open>permanent == false\<close>, members are released back to independent scheduling (each
  resumes its own trajectory position) instead of being finalized with the batch; if
  \<open>permanent == true\<close>, the batch finalizes as a single unit and all members are
  finalized together, sharing the batch's terminal record." The terminal record is
  the monitoring record of \<open>Arrival::terminate\<close>: name, lifetime span and attribute
  snapshot.
\<close>

definition Batched_terminate :: "bool \<Rightarrow> Batched \<Rightarrow> term_world \<Rightarrow> term_world" where
  "Batched_terminate finished b w =
     (let r = \<lparr>rec_name = name b, rec_lifetime = lifetime b,
               rec_attributes = attributes b, rec_finished = finished\<rparr>
      in if permanent b
         then w\<lparr>finalized := finalized w @ (name b, r) # map (\<lambda>m. (name m, r)) (arrivals b)\<rparr>
         else w\<lparr>resumed := resumed w @ arrivals b,
                finalized := finalized w @ [(name b, r)]\<rparr>)"

subsection \<open>Running a generator\<close>

text \<open>
  The world of a generator: the generator, the free store, the clock, the time of
  the generator's own next firing (\<open>None\<close> when it is not scheduled) and the arrivals
  activated so far.
\<close>

record gen_world =
  gen :: Generator
  gen_heap :: heap
  gen_now :: double
  gen_next :: "double option"
  gen_activated :: "Arrival list"

text \<open>
  Modelled from the spec: the body of \<open>Generator::run\<close>. "Requests the next
  inter-arrival duration from the external distribution provider. A non-finite or
  negative duration is the termination signal: the generator stops re-scheduling
  itself. Otherwise: schedules its own next firing \<open>duration\<close> time units ahead,
  constructs a new Arrival with the generator's Order and starting Activity,
  increments the generated-count, and activates the new Arrival."
\<close>

fun stop_signal :: "sample \<Rightarrow> bool" where
  "stop_signal NonFinite = True"
| "stop_signal (Finite x) = (x < 0)"

definition Generator_run :: "gen_world \<Rightarrow> gen_world" where
  "Generator_run w =
     (let g = gen w;
          d = dist_gen g (dist_calls g);
          g1 = g\<lparr>dist_calls := Suc (dist_calls g)\<rparr>
      in case d of
           NonFinite \<Rightarrow> w\<lparr>gen := g1, gen_next := None\<rparr>
         | Finite x \<Rightarrow>
             if x < 0 then w\<lparr>gen := g1, gen_next := None\<rparr>
             else
               (let (a, h1) = Arrival_ctor (sim g) (name g) (mon g) (order_gen g)
                                (first_activity g) (gen_heap w)
                in w\<lparr>gen := g1\<lparr>count_gen := count_gen g + 1\<rparr>,
                      gen_heap := h1,
                      gen_next := Some (gen_now w + x),
                      gen_activated := gen_activated w @ [a]\<rparr>))"

text \<open>
  The scheduler's part: it advances the clock to the generator's next firing and
  calls \<open>run\<close>, at most \<open>n\<close> times, and does nothing once no firing is scheduled.
\<close>

fun gen_fire :: "nat \<Rightarrow> gen_world \<Rightarrow> gen_world" where
  "gen_fire 0 w = w"
| "gen_fire (Suc n) w =
     (case gen_next w of
        None \<Rightarrow> w
      | Some t \<Rightarrow> gen_fire n (Generator_run (w\<lparr>gen_now := t\<rparr>)))"

definition gen_start :: "Generator \<Rightarrow> heap \<Rightarrow> gen_world" where
  "gen_start g h =
     \<lparr>gen = g, gen_heap = h, gen_now = 0, gen_next = Some 0, gen_activated = []\<rparr>"

subsection \<open>Running a manager\<close>

text \<open>
  The world of a manager: the manager, the clock, whether the manager is still
  scheduled, and the log of the setter's calls, each a value with the time of the
  call.
\<close>

record mgr_world =
  mgr :: Manager
  mgr_now :: double
  mgr_scheduled :: bool
  mgr_applied :: "(cint \<times> double) list"

datatype mgr_fault = Out_of_range nat

text \<open>
  Modelled from the spec: the body of \<open>Manager::run\<close>. "At step \<open>index\<close>, waits
  \<open>duration[index]\<close>, then invokes the external setter with \<open>value[index]\<close>, advances
  \<open>index\<close>. If \<open>index\<close> reaches the end of the sequence: when \<open>period > 0\<close>, wrap
  \<open>index\<close> back to 0 and continue; when \<open>period \<le> 0\<close>, stop (the process becomes
  dormant, no further firings)." An index outside one of the two vectors is a
  fault.
\<close>

definition Manager_run :: "mgr_world \<Rightarrow> mgr_fault + mgr_world" where
  "Manager_run w =
     (let m = mgr w; i = index m
      in if length (duration m) \<le> i \<or> length (value_seq m) \<le> i then Inl (Out_of_range i)
         else
           (let t = mgr_now w + duration m ! i;
                w1 = w\<lparr>mgr_now := t, mgr_applied := mgr_applied w @ [(value_seq m ! i, t)]\<rparr>
            in if Suc i = length (duration m)
               then (if 0 <s period m
                     then Inr (w1\<lparr>mgr := m\<lparr>index := 0\<rparr>\<rparr>)
                     else Inr (w1\<lparr>mgr := m\<lparr>index := Suc i\<rparr>, mgr_scheduled := False\<rparr>))
               else Inr (w1\<lparr>mgr := m\<lparr>index := Suc i\<rparr>\<rparr>)))"

text \<open>The scheduler's part: at most \<open>n\<close> firings, none once the manager is dormant.\<close>

fun mgr_fire :: "nat \<Rightarrow> mgr_world \<Rightarrow> mgr_fault + mgr_world" where
  "mgr_fire 0 w = Inr w"
| "mgr_fire (Suc n) w =
     (if mgr_scheduled w
      then (case Manager_run w of Inl e \<Rightarrow> Inl e | Inr w1 \<Rightarrow> mgr_fire n w1)
      else Inr w)"

definition mgr_start :: "Manager \<Rightarrow> mgr_world" where
  "mgr_start m = \<lparr>mgr = m, mgr_now = 0, mgr_scheduled = True, mgr_applied = []\<rparr>"

text \<open>
  The schedule as the spec's example reads it: firing number \<open>j\<close> (from 0) applies
  the value at position \<open>j mod n\<close>, after \<open>j div n\<close> full passes through the durations
  and the first \<open>j mod n + 1\<close> durations of the current pass.
\<close>

definition mgr_entry :: "Manager \<Rightarrow> nat \<Rightarrow> cint \<times> double" where
  "mgr_entry m j =
     (let n = length (duration m)
      in (value_seq m ! (j mod n),
          real (j div n) * sum_list (duration m) + sum_list (take (Suc (j mod n)) (duration m))))"

text \<open>
  The clock after \<open>j\<close> firings of a manager that repeats: \<open>j div n\<close> full passes and
  the first \<open>j mod n\<close> durations.
\<close>

definition mgr_time :: "Manager \<Rightarrow> nat \<Rightarrow> real" where
  "mgr_time m j = real (j div length (duration m)) * sum_list (duration m)
                    + sum_list (take (j mod length (duration m)) (duration m))"

text \<open>The state after \<open>j\<close> firings of a manager that repeats.\<close>

definition mgr_after :: "Manager \<Rightarrow> nat \<Rightarrow> mgr_world" where
  "mgr_after m j =
     \<lparr>mgr = m\<lparr>index := j mod length (duration m)\<rparr>, mgr_now = mgr_time m j,
      mgr_scheduled = True, mgr_applied = map (mgr_entry m) [0..<j]\<rparr>"

text \<open>The state after \<open>j\<close> firings of a manager that runs through once.\<close>

definition mgr_once :: "Manager \<Rightarrow> nat \<Rightarrow> mgr_world" where
  "mgr_once m j =
     \<lparr>mgr = m\<lparr>index := j\<rparr>, mgr_now = sum_list (take j (duration m)),
      mgr_scheduled = (j < length (duration m)), mgr_applied = map (mgr_entry m) [0..<j]\<rparr>"

section \<open>Theorems about Order\<close>

lemma set_priority_inv: "Order_inv (fst (set_priority v this))"
  by (auto simp: set_priority_def Order_inv_def Let_def word_sless_alt word_sle_eq)

lemma set_preemptible_inv: "Order_inv this \<Longrightarrow> Order_inv (fst (set_preemptible v this))"
  by (auto simp: set_preemptible_def Order_inv_def Let_def word_sless_alt word_sle_eq)

lemma set_restart_inv: "Order_inv this \<Longrightarrow> Order_inv (set_restart v this)"
  by (simp add: set_restart_def Order_inv_def)

lemma Order_ctor_inv: "Order_inv (fst (Order_ctor u p pe r))"
proof -
  obtain t1 w1 where 1: "set_priority p u = (t1, w1)" by (cases "set_priority p u")
  obtain t2 w2 where 2: "set_preemptible pe t1 = (t2, w2)" by (cases "set_preemptible pe t1")
  have "Order_inv t1" using set_priority_inv [of p u] 1 by simp
  then have "Order_inv t2" using set_preemptible_inv [of t1 pe] 2 by simp
  then show ?thesis by (simp add: Order_ctor_def 1 2 set_restart_inv)
qed

lemma Order_call_inv: "Order_inv (fst s) \<Longrightarrow> Order_inv (fst (Order_call c s))"
proof (cases s)
  case (Pair this ws)
  assume inv: "Order_inv (fst s)"
  show ?thesis
  proof (cases c)
    case (Set_priority v)
    then show ?thesis
      using set_priority_inv [of v this] Pair by (auto split: prod.splits)
  next
    case (Set_preemptible v)
    then show ?thesis
      using set_preemptible_inv [of this v] inv Pair by (auto split: prod.splits)
  next
    case (Set_restart v)
    then show ?thesis using inv Pair by (simp add: set_restart_inv)
  qed
qed

lemma Order_calls_inv: "Order_inv (fst s) \<Longrightarrow> Order_inv (fst (Order_calls cs s))"
  unfolding Order_calls_def
  by (induction cs arbitrary: s) (simp_all add: Order_call_inv)

lemma Order_ctor_neg: "Order_ctor u (-3) (-5) r =
    (\<lparr>priority = 0, preemptible = 0, restart = r\<rparr>, [Warn_priority, Warn_preemptible 0])"
  by (simp add: Order_ctor_def set_priority_def set_preemptible_def set_restart_def
      Let_def word_sless_alt)

text \<open>
  C1. Whatever the three arguments (and whatever the storage held before), the
  constructed Order satisfies \<open>0 \<le> priority \<le> preemptible\<close>, and so does the Order
  after any further sequence of calls to \<open>set_priority\<close>, \<open>set_preemptible\<close> and
  \<open>set_restart\<close>. \<open>Order(-3, -5)\<close> has priority 0 and preemptible 0, and the two
  coercions are reported as two warnings; every operation is a total function
  whose only other output is its warning log.
\<close>

theorem Order_invariant:
  "Order_inv (fst (Order_ctor u p pe r))
   \<and> Order_inv (fst (Order_calls cs (Order_ctor u p pe r)))
   \<and> Order_ctor u (-3) (-5) r =
       (\<lparr>priority = 0, preemptible = 0, restart = r\<rparr>, [Warn_priority, Warn_preemptible 0])"
  by (simp add: Order_ctor_inv Order_calls_inv Order_ctor_neg)

theorem Order_invariant_witness:
  "Order_inv (fst (Order_calls [Set_preemptible (-1), Set_priority 7, Set_restart True]
                    (Order_ctor \<lparr>priority = 9, preemptible = -8, restart = True\<rparr> 4 2 False)))
   \<and> fst (Order_calls [Set_preemptible (-1), Set_priority 7, Set_restart True]
                    (Order_ctor \<lparr>priority = 9, preemptible = -8, restart = True\<rparr> 4 2 False))
       = \<lparr>priority = 7, preemptible = 7, restart = True\<rparr>"
  using Order_invariant [of "\<lparr>priority = 9, preemptible = -8, restart = True\<rparr>" 4 2 False
      "[Set_preemptible (-1), Set_priority 7, Set_restart True]"]
  by (simp add: Order_calls_def Order_ctor_def set_priority_def set_preemptible_def
      set_restart_def Let_def word_sless_alt)

text \<open>
  C2. \<open>set_priority v\<close> stores 0 and warns when \<open>v < 0\<close> and stores \<open>v\<close> without a
  warning otherwise; it raises \<open>preemptible\<close> to the new priority when the stored
  \<open>preemptible\<close> is below it; \<open>restart\<close> and, in the other case, \<open>preemptible\<close> keep
  their values.
\<close>

theorem set_priority_effect:
  "set_priority v this =
     (this\<lparr>priority := (if v <s 0 then 0 else v),
            preemptible := (if preemptible this <s (if v <s 0 then 0 else v)
                            then (if v <s 0 then 0 else v) else preemptible this)\<rparr>,
      if v <s 0 then [Warn_priority] else [])"
  by (simp add: set_priority_def Let_def)

theorem set_priority_effect_witness:
  "set_priority (-2) \<lparr>priority = 3, preemptible = -1, restart = True\<rparr> =
     (\<lparr>priority = 0, preemptible = 0, restart = True\<rparr>, [Warn_priority])
   \<and> set_priority 5 \<lparr>priority = 3, preemptible = 9, restart = False\<rparr> =
     (\<lparr>priority = 5, preemptible = 9, restart = False\<rparr>, [])"
  using set_priority_effect [of "-2" "\<lparr>priority = 3, preemptible = -1, restart = True\<rparr>"]
    set_priority_effect [of 5 "\<lparr>priority = 3, preemptible = 9, restart = False\<rparr>"]
  by (simp add: word_sless_alt)

section \<open>Theorems about unordered maps\<close>

lemma umap_at_keys:
  "keys (snd (umap_at d k m)) = (if k \<in> set (keys m) then keys m else keys m @ [k])"
  by (auto simp: umap_at_def keys_def map_of_eq_None_iff split: option.splits dest: map_of_SomeD
      intro: rev_image_eqI)

lemma umap_at_other:
  "k' \<noteq> k \<Longrightarrow> map_of (snd (umap_at d k m)) k' = map_of m k'"
  by (auto simp: umap_at_def map_add_def split: option.splits)

lemma umap_at_fst:
  "fst (umap_at d k m) = (case map_of m k of None \<Rightarrow> d | Some v \<Rightarrow> v)"
  by (auto simp: umap_at_def  split: option.splits)

lemma update_keys_in: "k \<in> set (keys m) \<Longrightarrow> keys (AList.update k v m) = keys m"
  by (simp add: keys_def update_keys)

lemma umap_write_keys:
  "keys (AList.update k v (snd (umap_at d k m))) = (if k \<in> set (keys m) then keys m else keys m @ [k])"
  using umap_at_keys[of d k m] by (auto simp: update_keys_in)


section \<open>Theorems about the per-resource times\<close>

lemma restime_set_start:
  "keys (restime (set_start nm v a)) = (if nm \<in> set (keys (restime a)) then keys (restime a) else keys (restime a) @ [nm])"
  by (simp add: set_start_def case_prod_beta umap_write_keys)

lemma restime_set_activity:
  "keys (restime (set_activity nm v a)) = (if nm \<in> set (keys (restime a)) then keys (restime a) else keys (restime a) @ [nm])"
  by (simp add: set_activity_def case_prod_beta umap_write_keys)

lemma restime_get_activity:
  "keys (restime (snd (get_activity nm a))) = (if nm \<in> set (keys (restime a)) then keys (restime a) else keys (restime a) @ [nm])"
  by (simp add: get_activity_def case_prod_beta umap_at_keys)

lemma restime_set_selected: "restime (set_selected i r a) = restime a"
  by (simp add: set_selected_def case_prod_beta)

lemma restime_get_selected: "restime (snd (get_selected i a)) = restime a"
  by (simp add: get_selected_def case_prod_beta)

lemma restime_call_keys:
  "keys (restime (Arrival_call c a)) =
     keys (restime a) @ filter (\<lambda>nm. nm \<notin> set (keys (restime a))) (names_resource c)"
  by (cases c)
     (simp_all add: restime_set_start restime_set_activity restime_get_activity
        restime_set_selected restime_get_selected set_activity_ptr_def)

lemma restime_call_distinct:
  "distinct (keys (restime a)) \<Longrightarrow> distinct (keys (restime (Arrival_call c a)))"
  by (cases c)
     (simp_all add: restime_set_start restime_set_activity restime_get_activity
        restime_set_selected restime_get_selected set_activity_ptr_def)

lemma restime_call_set:
  "set (keys (restime (Arrival_call c a))) = set (keys (restime a)) \<union> set (names_resource c)"
  by (auto simp: restime_call_keys)

lemma restime_calls_distinct:
  "distinct (keys (restime a)) \<Longrightarrow> distinct (keys (restime (Arrival_calls cs a)))"
  unfolding Arrival_calls_def
  by (induction cs arbitrary: a) (simp_all add: restime_call_distinct)

lemma restime_calls_set:
  "set (keys (restime (Arrival_calls cs a))) = set (keys (restime a)) \<union> named cs"
  unfolding Arrival_calls_def named_def
  by (induction cs arbitrary: a) (auto simp: restime_call_set)

lemma restime_calls_length:
  assumes "distinct (keys (restime a))"
  shows "length (restime (Arrival_calls cs a)) =
           length (restime a) + card (named cs - set (keys (restime a)))"
proof -
  have fin: "finite (named cs)" by (simp add: named_def)
  have "length (restime (Arrival_calls cs a)) = length (keys (restime (Arrival_calls cs a)))"
    by (simp add: keys_def)
  also have "\<dots> = card (set (keys (restime (Arrival_calls cs a))))"
    using distinct_card [OF restime_calls_distinct [OF assms, of cs]] by simp
  also have "\<dots> = card (set (keys (restime a)) \<union> (named cs - set (keys (restime a))))"
    by (simp add: restime_calls_set)
  also have "\<dots> = card (set (keys (restime a))) + card (named cs - set (keys (restime a)))"
    using fin by (intro card_Un_disjoint) auto
  also have "card (set (keys (restime a))) = length (restime a)"
    using distinct_card [of "keys (restime a)"] assms by (simp add: keys_def)
  finally show ?thesis .
qed

lemma restime_get_activity_entry:
  "restime (snd (get_activity nm a)) =
     (if nm \<in> set (keys (restime a)) then restime a else restime a @ [(nm, ArrTime_ctor)])"
  by (auto simp: get_activity_def umap_at_def keys_def map_of_eq_None_iff split: option.splits
       dest: map_of_SomeD intro: rev_image_eqI)

text \<open>
  C9, as amended. The keys of \<open>restime\<close> stay unique, and a sequence of accessor
  calls adds exactly one entry for every resource name that it passes to
  \<open>set_start\<close>, \<open>set_activity\<close> or \<open>get_activity\<close> and that had no entry; nothing else
  adds an entry. The read \<open>get_activity\<close> of a resource without an entry creates the
  default entry \<open>ArrTime()\<close> for it.
\<close>

theorem restime_entries:
  "distinct (keys (restime a)) \<Longrightarrow>
     distinct (keys (restime (Arrival_calls cs a)))
     \<and> set (keys (restime (Arrival_calls cs a))) = set (keys (restime a)) \<union> named cs
     \<and> length (restime (Arrival_calls cs a)) =
         length (restime a) + card (named cs - set (keys (restime a)))
     \<and> restime (snd (get_activity nm a)) =
         (if nm \<in> set (keys (restime a)) then restime a else restime a @ [(nm, ArrTime_ctor)])"
  by (simp add: restime_calls_distinct restime_calls_set restime_calls_length
       restime_get_activity_entry)

theorem restime_entries_witness:
  "restime (Arrival_calls [Set_start ''cpu'' 1, Get_activity ''disk'', Set_activity ''cpu'' 2]
        (fst (Arrival_ctor None ''a'' 0 \<lparr>priority = 0, preemptible = 0, restart = False\<rparr> None
           \<lparr>cells = (\<lambda>p. None), fresh = 0, freed = []\<rparr>)))
    = [(''cpu'', \<lparr>start = 1, activity = 2, busy_until = -1, remaining = 0\<rparr>),
       (''disk'', \<lparr>start = -1, activity = 0, busy_until = -1, remaining = 0\<rparr>)]
   \<and> named [Set_start ''cpu'' 1, Get_activity ''disk'', Set_activity ''cpu'' 2] = {''cpu'', ''disk''}"
  using restime_entries [of "fst (Arrival_ctor None ''a'' 0 \<lparr>priority = 0, preemptible = 0, restart = False\<rparr> None
           \<lparr>cells = (\<lambda>p. None), fresh = 0, freed = []\<rparr>)"
       "[Set_start ''cpu'' 1, Get_activity ''disk'', Set_activity ''cpu'' 2]" "''disk''"]
  by (simp add: named_def Arrival_calls_def Arrival_ctor_def Arrival_ctor_more_def new_int_def
      get_activity_def set_start_def set_activity_def umap_at_def keys_def ArrTime_ctor_def)

text \<open>
  C9 as stated fails: on a newly constructed arrival, which has visited no
  resource, reading the activity time of \<open>r\<close> leaves an entry for \<open>r\<close> in \<open>restime\<close>.
\<close>

theorem restime_unvisited_counterexample:
  "visited [Get_activity ''r''] = {}
   \<and> restime (fst (Arrival_ctor None ''a'' 0 \<lparr>priority = 0, preemptible = 0, restart = False\<rparr> None
        \<lparr>cells = (\<lambda>p. None), fresh = 0, freed = []\<rparr>)) = []
   \<and> keys (restime (Arrival_calls [Get_activity ''r'']
        (fst (Arrival_ctor None ''a'' 0 \<lparr>priority = 0, preemptible = 0, restart = False\<rparr> None
           \<lparr>cells = (\<lambda>p. None), fresh = 0, freed = []\<rparr>)))) = [''r'']"
  by (simp add: visited_def Arrival_calls_def Arrival_ctor_def Arrival_ctor_more_def new_int_def
      get_activity_def umap_at_def keys_def)

section \<open>Theorems about the Batched constructor\<close>

lemma Order_ctor_default: "Order_ctor u 0 0 False = (\<lparr>priority = 0, preemptible = 0, restart = False\<rparr>, [])"
  by (cases u) (simp add: Order_ctor_def set_priority_def set_preemptible_def set_restart_def Let_def)

text \<open>
  C10. Whatever its arguments, the heap and the content of the storage that
  \<open>Order()\<close> is built on, the constructor yields a Batched that is monitored
  (\<open>mon = 1\<close>), has the Order \<open>(0, 0, false)\<close> built without a warning, default times
  and empty maps and members; the simulator, the name, the batcher activity and the
  permanent flag are the arguments, and the clone counter is a new cell holding 1.
\<close>

theorem Batched_ctor_defaults:
  "Batched_ctor u s n batcher perm h =
     ((\<lparr>sim = s, name = n, mon = 1, clones = fresh h,
        order = \<lparr>priority = 0, preemptible = 0, restart = False\<rparr>,
        lifetime = ArrTime_ctor, restime = [], activity_ptr = batcher, attributes = [],
        selected = [], arrivals = [], permanent = perm\<rparr>,
       h\<lparr>cells := (cells h)(fresh h \<mapsto> 1), fresh := Suc (fresh h)\<rparr>), [])
   \<and> is_monitored (fst (fst (Batched_ctor u s n batcher perm h)))"
  by (simp add: Batched_ctor_def Order_ctor_default Arrival_ctor_more_def new_int_def is_monitored_def)

theorem Batched_ctor_defaults_witness:
  "fst (fst (Batched_ctor \<lparr>priority = 5, preemptible = -2, restart = True\<rparr> (Some 1) ''batch0''
             (Some 7) True \<lparr>cells = (\<lambda>p. None), fresh = 3, freed = []\<rparr>)) =
     \<lparr>sim = Some 1, name = ''batch0'', mon = 1, clones = 3,
      order = \<lparr>priority = 0, preemptible = 0, restart = False\<rparr>,
      lifetime = \<lparr>start = -1, activity = 0, busy_until = -1, remaining = 0\<rparr>,
      restime = [], activity_ptr = Some 7, attributes = [], selected = [],
      arrivals = [], permanent = True\<rparr>"
  using Batched_ctor_defaults [of "\<lparr>priority = 5, preemptible = -2, restart = True\<rparr>" "Some 1"
      "''batch0''" "Some 7" True "\<lparr>cells = (\<lambda>p. None), fresh = 3, freed = []\<rparr>"]
  by (simp add: ArrTime_ctor_def)

section \<open>Theorems about lookups and attributes\<close>

lemma update_keys_app:
  "keys (AList.update k v m) = (if k \<in> set (keys m) then keys m else keys m @ [k])"
  by (simp add: keys_def update_keys)

text \<open>
  C8. \<open>get_activity\<close>, \<open>get_selected\<close> and the read of an attribute are total: for a
  key that was never set they return 0, the null pointer and 0, and otherwise the
  stored value. After \<open>set_attribute("k", 5.0)\<close> the attribute map holds 5 under \<open>k\<close>
  and what it held before under every other key, and its keys are the former ones,
  with \<open>k\<close> added when it was missing.
\<close>

theorem lookup_miss_defaults:
  "fst (get_activity nm a) = (case map_of (restime a) nm of None \<Rightarrow> 0 | Some t \<Rightarrow> activity t)
   \<and> fst (get_selected i a) = (case map_of (selected a) i of None \<Rightarrow> None | Some r \<Rightarrow> r)
   \<and> get_attribute key a = (case map_of (attributes a) key of None \<Rightarrow> 0 | Some v \<Rightarrow> v)
   \<and> map_of (attributes (snd (set_attribute ''k'' 5 a))) = (map_of (attributes a))(''k'' \<mapsto> 5)
   \<and> keys (attributes (snd (set_attribute ''k'' 5 a))) =
        (if ''k'' \<in> set (keys (attributes a)) then keys (attributes a)
         else keys (attributes a) @ [''k''])"
  by (simp add: get_activity_def get_selected_def get_attribute_def set_attribute_def
      case_prod_beta umap_at_fst ArrTime_ctor_def update_keys_app update_conv'
      split: option.splits)

theorem lookup_miss_defaults_witness:
  "fst (get_activity ''cpu'' (fst (Arrival_ctor None ''a'' 0 \<lparr>priority = 0, preemptible = 0, restart = False\<rparr> None
        \<lparr>cells = (\<lambda>p. None), fresh = 0, freed = []\<rparr>))) = 0
   \<and> fst (get_selected 4 (fst (Arrival_ctor None ''a'' 0 \<lparr>priority = 0, preemptible = 0, restart = False\<rparr> None
        \<lparr>cells = (\<lambda>p. None), fresh = 0, freed = []\<rparr>))) = None
   \<and> get_attribute ''j'' (snd (set_attribute ''k'' 5 (fst (Arrival_ctor None ''a'' 0 \<lparr>priority = 0, preemptible = 0, restart = False\<rparr> None
        \<lparr>cells = (\<lambda>p. None), fresh = 0, freed = []\<rparr>)))) = 0
   \<and> attributes (snd (set_attribute ''k'' 5 (fst (Arrival_ctor None ''a'' 0 \<lparr>priority = 0, preemptible = 0, restart = False\<rparr> None
        \<lparr>cells = (\<lambda>p. None), fresh = 0, freed = []\<rparr>)))) = [(''k'', 5)]"
  using lookup_miss_defaults [of "''cpu''" "fst (Arrival_ctor None ''a'' 0 \<lparr>priority = 0, preemptible = 0, restart = False\<rparr> None
        \<lparr>cells = (\<lambda>p. None), fresh = 0, freed = []\<rparr>)" 4 "''j''"]
  by (simp add: Arrival_ctor_def Arrival_ctor_more_def new_int_def get_attribute_def set_attribute_def)

section \<open>Theorems about leaving a resource\<close>

text \<open>
  C3. With \<open>t\<close> the times recorded for the resource (the default times when it
  has none), \<open>leave\<close> records for it
  \<open>remaining = max(0, busy_until - now)\<close> when the order does not restart, and the
  full service requirement when it does; in both cases the activity time grows by
  the time elapsed since \<open>start\<close>, and the times of every other resource stay as
  they are. So without restart \<open>remaining\<close> is 2 at \<open>now = busy_until - 2\<close> and 0 from
  \<open>busy_until\<close> on.
\<close>

theorem leave_effect:
  "fst (umap_at ArrTime_ctor r (restime a)) = t \<Longrightarrow>
     map_of (restime (leave now full r a)) r =
       Some (t\<lparr>remaining := (if restart (order a) then full else max 0 (busy_until t - now)),
               activity := activity t + (now - start t)\<rparr>)
     \<and> (\<forall>r'. r' \<noteq> r \<longrightarrow> map_of (restime (leave now full r a)) r' = map_of (restime a) r')
     \<and> (\<not> restart (order a) \<and> now = busy_until t - 2 \<longrightarrow>
          map_option remaining (map_of (restime (leave now full r a)) r) = Some 2)
     \<and> (\<not> restart (order a) \<and> busy_until t \<le> now \<longrightarrow>
          map_option remaining (map_of (restime (leave now full r a)) r) = Some 0)"
  by (auto simp: leave_def case_prod_beta Let_def update_conv' umap_at_other)

theorem leave_effect_witness:
  "map_of (restime (leave 8 5 ''cpu''
      \<lparr>sim = None, name = ''a'', mon = 0, clones = 0,
       order = \<lparr>priority = 0, preemptible = 0, restart = False\<rparr>,
       lifetime = ArrTime_ctor,
       restime = [(''cpu'', \<lparr>start = 7, activity = 4, busy_until = 10, remaining = 0\<rparr>)],
       activity_ptr = None, attributes = [], selected = []\<rparr>)) ''cpu''
     = Some \<lparr>start = 7, activity = 5, busy_until = 10, remaining = 2\<rparr>
   \<and> map_of (restime (leave 12 5 ''cpu''
      \<lparr>sim = None, name = ''a'', mon = 0, clones = 0,
       order = \<lparr>priority = 0, preemptible = 0, restart = True\<rparr>,
       lifetime = ArrTime_ctor,
       restime = [(''cpu'', \<lparr>start = 7, activity = 4, busy_until = 10, remaining = 0\<rparr>)],
       activity_ptr = None, attributes = [], selected = []\<rparr>)) ''cpu''
     = Some \<lparr>start = 7, activity = 9, busy_until = 10, remaining = 5\<rparr>"
  using leave_effect [of "''cpu''" "\<lparr>sim = None, name = ''a'', mon = 0, clones = 0,
       order = \<lparr>priority = 0, preemptible = 0, restart = False\<rparr>,
       lifetime = ArrTime_ctor,
       restime = [(''cpu'', \<lparr>start = 7, activity = 4, busy_until = 10, remaining = 0\<rparr>)],
       activity_ptr = None, attributes = [], selected = []\<rparr>"
       "\<lparr>start = 7, activity = 4, busy_until = 10, remaining = 0\<rparr>" 8 5]
    leave_effect [of "''cpu''" "\<lparr>sim = None, name = ''a'', mon = 0, clones = 0,
       order = \<lparr>priority = 0, preemptible = 0, restart = True\<rparr>,
       lifetime = ArrTime_ctor,
       restime = [(''cpu'', \<lparr>start = 7, activity = 4, busy_until = 10, remaining = 0\<rparr>)],
       activity_ptr = None, attributes = [], selected = []\<rparr>"
       "\<lparr>start = 7, activity = 4, busy_until = 10, remaining = 0\<rparr>" 12 5]
  by (simp add: umap_at_def)

section \<open>Theorems about the clone counter\<close>

lemma clone_times_counter:
  "cells h (clones a) = Some c \<Longrightarrow>
     clone_times n a h = Inr (replicate n a, h\<lparr>cells := (cells h)(clones a \<mapsto> c + of_nat n)\<rparr>)"
proof (induction n arbitrary: h c)
  case 0
  then show ?case by (simp add: fun_upd_idem)
next
  case (Suc n)
  let ?h1 = "h\<lparr>cells := (cells h)(clones a \<mapsto> c + 1)\<rparr>"
  have 1: "clone a h = Inr (a, ?h1)" using Suc.prems by (simp add: clone_def)
  have 2: "cells ?h1 (clones a) = Some (c + 1)" by simp
  have 3: "?h1\<lparr>cells := (cells ?h1)(clones a \<mapsto> c + 1 + of_nat n)\<rparr>
           = h\<lparr>cells := (cells h)(clones a \<mapsto> c + of_nat (Suc n))\<rparr>"
    by (simp add: add.assoc)
  have 4: "clone_times n a ?h1 = Inr (replicate n a, h\<lparr>cells := (cells h)(clones a \<mapsto> c + of_nat (Suc n))\<rparr>)"
    using Suc.IH [OF 2] unfolding 3 .
  show ?case
    by (simp only: clone_times.simps 1 4 sum.case prod.case replicate.simps)
qed

lemma destroy_all_append:
  "destroy_all (xs @ ys) h =
     (case destroy_all xs h of Inl e \<Rightarrow> Inl e | Inr h1 \<Rightarrow> destroy_all ys h1)"
  by (induction xs arbitrary: h) (simp_all split: sum.splits)

lemma unat_pred_pos:
  assumes "1 < unat (c :: cint)"
  shows "c - 1 \<noteq> 0 \<and> unat (c - 1) = unat c - 1"
proof -
  have "c \<noteq> 0" using assms by auto
  then have 1: "unat (c - 1) = unat c - 1" by (rule unat_minus_one)
  then have "unat (c - 1) \<noteq> 0" using assms by simp
  then have "c - 1 \<noteq> 0" by (simp add: unat_eq_0)
  then show ?thesis using 1 by simp
qed

lemma destroy_some:
  "\<forall>x \<in> set xs. clones x = p \<Longrightarrow> cells h p = Some c \<Longrightarrow> length xs < unat c \<Longrightarrow>
     destroy_all xs h = Inr (h\<lparr>cells := (cells h)(p \<mapsto> c - of_nat (length xs))\<rparr>)"
proof (induction xs arbitrary: h c)
  case Nil
  then show ?case by (simp add: fun_upd_idem)
next
  case (Cons x xs)
  let ?h1 = "h\<lparr>cells := (cells h)(p \<mapsto> c - 1)\<rparr>"
  have c: "c - 1 \<noteq> 0" "unat (c - 1) = unat c - 1"
    using Cons.prems(3) unat_pred_pos [of c] by simp_all
  have 1: "Arrival_dtor x h = Inr ?h1"
    using Cons.prems(1,2) c by (simp add: Arrival_dtor_def)
  have 2: "cells ?h1 p = Some (c - 1)" by simp
  have 3: "length xs < unat (c - 1)" using Cons.prems(3) c by simp
  have 4: "\<forall>x \<in> set xs. clones x = p" using Cons.prems(1) by simp
  have 5: "?h1\<lparr>cells := (cells ?h1)(p \<mapsto> c - 1 - of_nat (length xs))\<rparr>
           = h\<lparr>cells := (cells h)(p \<mapsto> c - of_nat (length (x # xs)))\<rparr>"
    by (simp add: diff_diff_eq)
  have 6: "destroy_all xs ?h1 = Inr (h\<lparr>cells := (cells h)(p \<mapsto> c - of_nat (length (x # xs)))\<rparr>)"
    using Cons.IH [OF 4 2 3] unfolding 5 .
  show ?case
    by (simp only: destroy_all.simps 1 6 sum.case)
qed


lemma destroy_last:
  assumes "\<forall>x \<in> set xs. clones x = p" and "cells h p = Some c"
    and "length xs = unat c" and "xs \<noteq> []"
  shows "destroy_all xs h = Inr (h\<lparr>cells := (cells h)(p := None), freed := freed h @ [p]\<rparr>)"
proof -
  obtain ys y where xs: "xs = ys @ [y]" using assms(4) by (cases xs rule: rev_cases) auto
  have len: "length ys < unat c" "Suc (length ys) = unat c" using assms(3) xs by simp_all
  have ys: "\<forall>x \<in> set ys. clones x = p" and y: "clones y = p" using assms(1) xs by simp_all
  let ?h1 = "h\<lparr>cells := (cells h)(p \<mapsto> c - of_nat (length ys))\<rparr>"
  have 1: "destroy_all ys h = Inr ?h1" by (rule destroy_some [OF ys assms(2) len(1)])
  have "of_nat (unat c) = c" by simp
  then have "(of_nat (length ys) :: cint) + 1 = c" using len(2) by (metis of_nat_Suc add.commute)
  then have one: "c - of_nat (length ys) = 1" by (metis add_diff_cancel_left')
  have 2: "Arrival_dtor y ?h1 = Inr (h\<lparr>cells := (cells h)(p := None), freed := freed h @ [p]\<rparr>)"
    by (simp add: Arrival_dtor_def y one delete_int_def)
  show ?thesis
    by (simp only: xs destroy_all_append 1 sum.case destroy_all.simps 2)
qed

lemma unat_small: "n < 2 ^ 31 \<Longrightarrow> unat (of_nat n :: cint) = n"
  by (simp add: unat_of_nat)

lemma sint_small:
  assumes "n < 2 ^ 31"
  shows "sint (of_nat n :: cint) = int n"
proof -
  have "int n < 2 ^ 31" using assms by (metis of_nat_less_iff of_nat_numeral of_nat_power)
  then have "signed_take_bit 31 (int n) = int n"
    by (intro signed_take_bit_int_eq_self) simp_all
  then show ?thesis by (simp add: signed_of_nat)
qed

text \<open>
  C6. An Arrival is constructed and cloned \<open>N\<close> times, \<open>N + 1\<close> being a positive
  \<open>int\<close>: the clones succeed, every instance holds the address of the one counter,
  and the counter's value is \<open>N + 1\<close>. Then any \<open>N + 1\<close> instances that hold this
  address (in any order, and whatever else has changed in them) are destroyed one
  after the other. After \<open>k \<le> N\<close> destructions the counter holds \<open>N + 1 - k\<close> and
  nothing has been freed; the last destruction frees the counter, which is then
  logged as freed exactly once; no destruction faults.
\<close>

theorem clone_counter_freed_once:
  assumes "N + 1 < 2 ^ 31"
    and "Arrival_ctor_more s nm m ord fa ext h0 = (a :: 'a Arrival_scheme, h1)"
  shows "\<exists>bs h2. clone_times N a h1 = Inr (bs, h2) \<and> length bs = N
           \<and> (\<forall>b \<in> set bs. clones b = clones a)
           \<and> map_option sint (cells h2 (clones a)) = Some (int (N + 1))
           \<and> (\<forall>(xs :: 'a Arrival_scheme list) k.
                length xs = N + 1 \<and> (\<forall>x \<in> set xs. clones x = clones a) \<and> k \<le> N + 1 \<longrightarrow>
                (\<exists>h3. destroy_all (take k xs) h2 = Inr h3
                   \<and> map_option sint (cells h3 (clones a)) =
                       (if k \<le> N then Some (int (N + 1 - k)) else None)
                   \<and> freed h3 = (if k \<le> N then freed h0 else freed h0 @ [clones a])))"
proof -
  let ?p = "clones a"
  let ?c = "of_nat (N + 1) :: cint"
  have a: "?p = fresh h0" and h1: "cells h1 ?p = Some 1" "freed h1 = freed h0"
    using assms(2) by (auto simp: Arrival_ctor_more_def new_int_def)
  let ?h2 = "h1\<lparr>cells := (cells h1)(?p \<mapsto> 1 + of_nat N)\<rparr>"
  have ct: "clone_times N a h1 = Inr (replicate N a, ?h2)"
    by (rule clone_times_counter [OF h1(1)])
  have c: "cells ?h2 ?p = Some ?c" by simp
  have uc: "unat ?c = N + 1" using assms(1) by (rule unat_small)
  have d: "\<exists>h3. destroy_all (take k xs) ?h2 = Inr h3
             \<and> map_option sint (cells h3 ?p) = (if k \<le> N then Some (int (N + 1 - k)) else None)
             \<and> freed h3 = (if k \<le> N then freed h0 else freed h0 @ [?p])"
    if xs: "length xs = N + 1" "\<forall>x \<in> set xs. clones x = ?p" and k: "k \<le> N + 1" for xs k
  proof (cases "k \<le> N")
    case True
    have len: "length (take k xs) = k" using xs(1) k by simp
    have in_p: "\<forall>x \<in> set (take k xs). clones x = ?p" using xs(2) by (meson in_set_takeD)
    have lt: "length (take k xs) < unat ?c" using len uc True by simp
    have e: "destroy_all (take k xs) ?h2
               = Inr (?h2\<lparr>cells := (cells ?h2)(?p \<mapsto> ?c - of_nat (length (take k xs)))\<rparr>)"
      by (rule destroy_some [OF in_p c lt])
    have "?c - of_nat k = (of_nat (N + 1 - k) :: cint)" using True by (simp add: of_nat_diff)
    moreover have "N + 1 - k < 2 ^ 31" using assms(1) by simp
    ultimately have "sint (?c - of_nat k) = int (N + 1 - k)" using sint_small by metis
    then show ?thesis using True unfolding e len by (simp add: h1(2))
  next
    case False
    then have keq: "k = N + 1" using k by simp
    then have tk: "take k xs = xs" using xs(1) by simp
    have ne: "xs \<noteq> []" using xs(1) by auto
    have len: "length xs = unat ?c" using xs(1) uc by simp
    have e: "destroy_all xs ?h2 = Inr (?h2\<lparr>cells := (cells ?h2)(?p := None), freed := freed ?h2 @ [?p]\<rparr>)"
      by (rule destroy_last [OF xs(2) c len ne])
    show ?thesis using False by (simp add: tk e h1(2))
  qed
  have v: "map_option sint (cells ?h2 ?p) = Some (int (N + 1))"
    using sint_small [OF assms(1)] by simp
  have d': "\<forall>(xs :: 'a Arrival_scheme list) k. length xs = N + 1 \<and> (\<forall>x \<in> set xs. clones x = ?p) \<and> k \<le> N + 1 \<longrightarrow>
             (\<exists>h3. destroy_all (take k xs) ?h2 = Inr h3
                \<and> map_option sint (cells h3 ?p) = (if k \<le> N then Some (int (N + 1 - k)) else None)
                \<and> freed h3 = (if k \<le> N then freed h0 else freed h0 @ [?p]))"
    using d by blast
  have len: "length (replicate N a) = N" by simp
  have same: "\<forall>b \<in> set (replicate N a). clones b = ?p" by simp
  show ?thesis
    by (intro exI [of _ "replicate N a"] exI [of _ ?h2] conjI ct len same v d')
qed

theorem clone_counter_freed_once_witness:
  "\<exists>bs h2. clone_times 2
       \<lparr>sim = None, name = ''a'', mon = 0, clones = 0,
        order = \<lparr>priority = 0, preemptible = 0, restart = False\<rparr>, lifetime = ArrTime_ctor,
        restime = [], activity_ptr = None, attributes = [], selected = []\<rparr>
       \<lparr>cells = (\<lambda>p. None)(0 \<mapsto> 1), fresh = 1, freed = []\<rparr> = Inr (bs, h2)
     \<and> map_option sint (cells h2 0) = Some 3
     \<and> (\<exists>h3. destroy_all (bs @ [\<lparr>sim = None, name = ''a'', mon = 0, clones = 0,
        order = \<lparr>priority = 0, preemptible = 0, restart = False\<rparr>, lifetime = ArrTime_ctor,
        restime = [], activity_ptr = None, attributes = [], selected = []\<rparr>]) h2 = Inr h3
           \<and> cells h3 0 = None \<and> freed h3 = [0])
     \<and> (\<exists>h3. destroy_all (take 2 (bs @ [\<lparr>sim = None, name = ''a'', mon = 0, clones = 0,
        order = \<lparr>priority = 0, preemptible = 0, restart = False\<rparr>, lifetime = ArrTime_ctor,
        restime = [], activity_ptr = None, attributes = [], selected = []\<rparr>])) h2 = Inr h3
           \<and> map_option sint (cells h3 0) = Some 1 \<and> freed h3 = [])"
proof -
  let ?a = "\<lparr>sim = None, name = ''a'', mon = 0, clones = 0,
        order = \<lparr>priority = 0, preemptible = 0, restart = False\<rparr>, lifetime = ArrTime_ctor,
        restime = [], activity_ptr = None, attributes = [], selected = []\<rparr> :: Arrival"
  let ?h0 = "\<lparr>cells = (\<lambda>p. None), fresh = 0, freed = []\<rparr>"
  let ?h1 = "\<lparr>cells = (\<lambda>p. None)(0 \<mapsto> 1), fresh = 1, freed = []\<rparr>"
  have small: "(2::nat) + 1 < 2 ^ 31" by simp
  have ctor: "Arrival_ctor_more None ''a'' 0 \<lparr>priority = 0, preemptible = 0, restart = False\<rparr>
                None () ?h0 = (?a, ?h1)"
    by (simp add: Arrival_ctor_more_def new_int_def)
  from clone_counter_freed_once [OF small ctor]
  obtain bs h2 where ct: "clone_times 2 ?a ?h1 = Inr (bs, h2)" and len: "length bs = 2"
    and same: "\<forall>b \<in> set bs. clones b = clones ?a"
    and v: "map_option sint (cells h2 (clones ?a)) = Some (int (2 + 1))"
    and d: "\<forall>(xs :: Arrival list) k. length xs = 2 + 1 \<and> (\<forall>x \<in> set xs. clones x = clones ?a) \<and> k \<le> 2 + 1 \<longrightarrow>
                (\<exists>h3. destroy_all (take k xs) h2 = Inr h3
                   \<and> map_option sint (cells h3 (clones ?a)) =
                       (if k \<le> 2 then Some (int (2 + 1 - k)) else None)
                   \<and> freed h3 = (if k \<le> 2 then freed ?h0 else freed ?h0 @ [clones ?a]))"
    by (elim exE conjE) (rule that, assumption+)
  have xs: "length (bs @ [?a]) = 2 + 1 \<and> (\<forall>x \<in> set (bs @ [?a]). clones x = clones ?a)"
    using len same by simp
  from d [rule_format, of "bs @ [?a]" 3] xs
  have 3: "\<exists>h3. destroy_all (bs @ [?a]) h2 = Inr h3 \<and> cells h3 0 = None \<and> freed h3 = [0]"
    using len by simp
  from d [rule_format, of "bs @ [?a]" 2] xs
  have 2: "\<exists>h3. destroy_all (take 2 (bs @ [?a])) h2 = Inr h3
             \<and> map_option sint (cells h3 0) = Some 1 \<and> freed h3 = []"
    by simp
  from v have v': "map_option sint (cells h2 0) = Some 3" by simp
  show ?thesis using ct v' 2 3 by blast
qed

section \<open>Theorems about terminating a batch\<close>

text \<open>
  C7. When the batch is not permanent, \<open>terminate\<close> hands every member back to the
  scheduler, in order and as it is (so with its own trajectory position), and only
  the batch itself is finalized. When the batch is permanent, no member is handed
  back, and the batch and every member are finalized with one and the same terminal
  record, the batch's.
\<close>

theorem Batched_terminate_effect:
  "(if permanent b
    then resumed (Batched_terminate fin b w) = resumed w
       \<and> finalized (Batched_terminate fin b w) =
           finalized w @
             map (\<lambda>nm. (nm, \<lparr>rec_name = name b, rec_lifetime = lifetime b,
                              rec_attributes = attributes b, rec_finished = fin\<rparr>))
               (name b # map name (arrivals b))
    else resumed (Batched_terminate fin b w) = resumed w @ arrivals b
       \<and> finalized (Batched_terminate fin b w) =
           finalized w @ [(name b, \<lparr>rec_name = name b, rec_lifetime = lifetime b,
                                   rec_attributes = attributes b, rec_finished = fin\<rparr>)])"
  by (simp add: Batched_terminate_def Let_def comp_def)

theorem Batched_terminate_effect_witness:
  "map name (resumed (Batched_terminate True
      \<lparr>sim = None, name = ''batch'', mon = 1, clones = 0,
       order = \<lparr>priority = 0, preemptible = 0, restart = False\<rparr>, lifetime = ArrTime_ctor,
       restime = [], activity_ptr = None, attributes = [], selected = [],
       arrivals = map (\<lambda>nm. \<lparr>sim = None, name = nm, mon = 1, clones = 1,
         order = \<lparr>priority = 0, preemptible = 0, restart = False\<rparr>, lifetime = ArrTime_ctor,
         restime = [], activity_ptr = Some 4, attributes = [], selected = []\<rparr>)
         [''a0'', ''a1'', ''a2''],
       permanent = False\<rparr> \<lparr>resumed = [], finalized = []\<rparr>)) = [''a0'', ''a1'', ''a2'']
   \<and> map fst (finalized (Batched_terminate True
      \<lparr>sim = None, name = ''batch'', mon = 1, clones = 0,
       order = \<lparr>priority = 0, preemptible = 0, restart = False\<rparr>, lifetime = ArrTime_ctor,
       restime = [], activity_ptr = None, attributes = [], selected = [],
       arrivals = map (\<lambda>nm. \<lparr>sim = None, name = nm, mon = 1, clones = 1,
         order = \<lparr>priority = 0, preemptible = 0, restart = False\<rparr>, lifetime = ArrTime_ctor,
         restime = [], activity_ptr = Some 4, attributes = [], selected = []\<rparr>)
         [''a0'', ''a1'', ''a2''],
       permanent = False\<rparr> \<lparr>resumed = [], finalized = []\<rparr>)) = [''batch'']
   \<and> map (\<lambda>e. (fst e, rec_name (snd e))) (finalized (Batched_terminate True
      \<lparr>sim = None, name = ''batch'', mon = 1, clones = 0,
       order = \<lparr>priority = 0, preemptible = 0, restart = False\<rparr>, lifetime = ArrTime_ctor,
       restime = [], activity_ptr = None, attributes = [], selected = [],
       arrivals = map (\<lambda>nm. \<lparr>sim = None, name = nm, mon = 1, clones = 1,
         order = \<lparr>priority = 0, preemptible = 0, restart = False\<rparr>, lifetime = ArrTime_ctor,
         restime = [], activity_ptr = Some 4, attributes = [], selected = []\<rparr>)
         [''a0'', ''a1'', ''a2''],
       permanent = True\<rparr> \<lparr>resumed = [], finalized = []\<rparr>))
     = [(''batch'', ''batch''), (''a0'', ''batch''), (''a1'', ''batch''), (''a2'', ''batch'')]"
  using Batched_terminate_effect [of
      "\<lparr>sim = None, name = ''batch'', mon = 1, clones = 0,
       order = \<lparr>priority = 0, preemptible = 0, restart = False\<rparr>, lifetime = ArrTime_ctor,
       restime = [], activity_ptr = None, attributes = [], selected = [],
       arrivals = map (\<lambda>nm. \<lparr>sim = None, name = nm, mon = 1, clones = 1,
         order = \<lparr>priority = 0, preemptible = 0, restart = False\<rparr>, lifetime = ArrTime_ctor,
         restime = [], activity_ptr = Some 4, attributes = [], selected = []\<rparr>)
         [''a0'', ''a1'', ''a2''],
       permanent = False\<rparr>" True "\<lparr>resumed = [], finalized = []\<rparr>"]
    Batched_terminate_effect [of
      "\<lparr>sim = None, name = ''batch'', mon = 1, clones = 0,
       order = \<lparr>priority = 0, preemptible = 0, restart = False\<rparr>, lifetime = ArrTime_ctor,
       restime = [], activity_ptr = None, attributes = [], selected = [],
       arrivals = map (\<lambda>nm. \<lparr>sim = None, name = nm, mon = 1, clones = 1,
         order = \<lparr>priority = 0, preemptible = 0, restart = False\<rparr>, lifetime = ArrTime_ctor,
         restime = [], activity_ptr = Some 4, attributes = [], selected = []\<rparr>)
         [''a0'', ''a1'', ''a2''],
       permanent = True\<rparr>" True "\<lparr>resumed = [], finalized = []\<rparr>"]
  by simp

section \<open>Theorems about running a generator\<close>

lemma gen_fire_stopped: "gen_next w = None \<Longrightarrow> gen_fire n w = w"
  by (cases n) simp_all

lemma Generator_run_stop:
  "stop_signal (dist_gen (gen w) (dist_calls (gen w))) \<Longrightarrow>
     Generator_run w = w\<lparr>gen := (gen w)\<lparr>dist_calls := Suc (dist_calls (gen w))\<rparr>, gen_next := None\<rparr>"
  by (cases "dist_gen (gen w) (dist_calls (gen w))") (simp_all add: Generator_run_def Let_def)

lemma Generator_run_go:
  "dist_gen (gen w) (dist_calls (gen w)) = Finite x \<Longrightarrow> 0 \<le> x \<Longrightarrow>
     Generator_run w =
       w\<lparr>gen := (gen w)\<lparr>dist_calls := Suc (dist_calls (gen w)), count_gen := count_gen (gen w) + 1\<rparr>,
         gen_heap := snd (Arrival_ctor (sim (gen w)) (name (gen w)) (mon (gen w)) (order_gen (gen w))
                       (first_activity (gen w)) (gen_heap w)),
         gen_next := Some (gen_now w + x),
         gen_activated := gen_activated w @
            [fst (Arrival_ctor (sim (gen w)) (name (gen w)) (mon (gen w)) (order_gen (gen w))
                       (first_activity (gen w)) (gen_heap w))]\<rparr>"
  by (simp add: Generator_run_def Let_def case_prod_beta)

lemma Arrival_ctor_fields:
  "order (fst (Arrival_ctor s n m ord fa h)) = ord \<and> activity_ptr (fst (Arrival_ctor s n m ord fa h)) = fa"
  by (simp add: Arrival_ctor_def Arrival_ctor_more_def new_int_def)

lemma gen_example:
  assumes "d 0 = Finite 2" "d (Suc 0) = Finite 3" "d 2 = Finite (-1)"
  shows "gen_next (gen_fire (n + 3) (gen_start (Generator_ctor s nm m fa d ord) h)) = None
       \<and> length (gen_activated (gen_fire (n + 3) (gen_start (Generator_ctor s nm m fa d ord) h))) = 2
       \<and> count_gen (gen (gen_fire (n + 3) (gen_start (Generator_ctor s nm m fa d ord) h))) = 2"
proof -
  let ?w0 = "gen_start (Generator_ctor s nm m fa d ord) h"
  have 3: "n + 3 = Suc (Suc (Suc n))" by simp
  have d2: "d (Suc (Suc 0)) = Finite (-1)" using assms(3) by (simp add: numeral_2_eq_2)
  show ?thesis unfolding 3
    by (simp add: gen_start_def Generator_ctor_def Generator_run_def Let_def case_prod_beta
        assms(1,2) d2 gen_fire_stopped)
qed

text \<open>
  C4. When the provider yields a non-finite or a negative duration, \<open>run\<close> leaves
  the generator unscheduled, with the arrivals and the count as they were, and no
  later firing changes anything. When it yields a finite duration \<open>x \<ge> 0\<close>, \<open>run\<close>
  schedules the next firing \<open>x\<close> time units ahead, activates one new Arrival that
  carries the generator's Order and first activity, and adds one to the count.
  A generator whose provider yields 2, 3 and -1 has produced exactly two arrivals
  after three firings and is unscheduled from then on.
\<close>

theorem Generator_run_effect:
  "(stop_signal (dist_gen (gen w) (dist_calls (gen w))) \<longrightarrow>
      gen_next (Generator_run w) = None
      \<and> gen_activated (Generator_run w) = gen_activated w
      \<and> count_gen (gen (Generator_run w)) = count_gen (gen w)
      \<and> (\<forall>n. gen_fire n (Generator_run w) = Generator_run w))
   \<and> (\<forall>x. dist_gen (gen w) (dist_calls (gen w)) = Finite x \<and> 0 \<le> x \<longrightarrow>
      gen_next (Generator_run w) = Some (gen_now w + x)
      \<and> (\<exists>a. gen_activated (Generator_run w) = gen_activated w @ [a]
             \<and> order a = order_gen (gen w) \<and> activity_ptr a = first_activity (gen w))
      \<and> count_gen (gen (Generator_run w)) = count_gen (gen w) + 1)
   \<and> (d 0 = Finite 2 \<and> d 1 = Finite 3 \<and> d 2 = Finite (-1) \<longrightarrow>
      (\<forall>n. gen_next (gen_fire (n + 3) (gen_start (Generator_ctor s nm m fa d ord) h)) = None
         \<and> length (gen_activated
              (gen_fire (n + 3) (gen_start (Generator_ctor s nm m fa d ord) h))) = 2
         \<and> count_gen (gen (gen_fire (n + 3) (gen_start (Generator_ctor s nm m fa d ord) h)))
             = 2))"
proof (intro conjI impI allI)
  assume stop: "stop_signal (dist_gen (gen w) (dist_calls (gen w)))"
  show "gen_next (Generator_run w) = None"
    and "gen_activated (Generator_run w) = gen_activated w"
    and "count_gen (gen (Generator_run w)) = count_gen (gen w)"
    by (simp_all add: Generator_run_stop [OF stop])
  then show "gen_fire n (Generator_run w) = Generator_run w" for n
    by (simp add: gen_fire_stopped)
next
  fix x
  assume "dist_gen (gen w) (dist_calls (gen w)) = Finite x \<and> 0 \<le> x"
  then have go: "dist_gen (gen w) (dist_calls (gen w)) = Finite x" "0 \<le> x" by simp_all
  show "gen_next (Generator_run w) = Some (gen_now w + x)"
    and "count_gen (gen (Generator_run w)) = count_gen (gen w) + 1"
    by (simp_all add: Generator_run_go [OF go])
  show "\<exists>a. gen_activated (Generator_run w) = gen_activated w @ [a]
          \<and> order a = order_gen (gen w) \<and> activity_ptr a = first_activity (gen w)"
    by (simp add: Generator_run_go [OF go] Arrival_ctor_fields)
next
  fix n
  assume "d 0 = Finite 2 \<and> d 1 = Finite 3 \<and> d 2 = Finite (-1)"
  then have d: "d 0 = Finite 2" "d (Suc 0) = Finite 3" "d 2 = Finite (-1)" by simp_all
  show "gen_next (gen_fire (n + 3) (gen_start (Generator_ctor s nm m fa d ord) h)) = None"
    and "length (gen_activated
              (gen_fire (n + 3) (gen_start (Generator_ctor s nm m fa d ord) h))) = 2"
    and "count_gen (gen (gen_fire (n + 3) (gen_start (Generator_ctor s nm m fa d ord) h))) = 2"
    using gen_example [OF d, of n s nm m fa ord h] by simp_all
qed

theorem Generator_run_effect_witness:
  "length (gen_activated (gen_fire (7 + 3) (gen_start
      (Generator_ctor None ''gen'' 1 (Some 0)
         (\<lambda>k. if k = 0 then Finite 2 else if k = 1 then Finite 3 else Finite (-1))
         \<lparr>priority = 1, preemptible = 2, restart = False\<rparr>)
      \<lparr>cells = (\<lambda>p. None), fresh = 0, freed = []\<rparr>))) = 2
   \<and> gen_next (gen_fire (7 + 3) (gen_start
      (Generator_ctor None ''gen'' 1 (Some 0)
         (\<lambda>k. if k = 0 then Finite 2 else if k = 1 then Finite 3 else Finite (-1))
         \<lparr>priority = 1, preemptible = 2, restart = False\<rparr>)
      \<lparr>cells = (\<lambda>p. None), fresh = 0, freed = []\<rparr>)) = None
   \<and> map (\<lambda>a. (name a, order a, activity_ptr a)) (gen_activated (gen_fire 2 (gen_start
      (Generator_ctor None ''gen'' 1 (Some 0)
         (\<lambda>k. if k = 0 then Finite 2 else if k = 1 then Finite 3 else Finite (-1))
         \<lparr>priority = 1, preemptible = 2, restart = False\<rparr>)
      \<lparr>cells = (\<lambda>p. None), fresh = 0, freed = []\<rparr>)))
     = [(''gen'', \<lparr>priority = 1, preemptible = 2, restart = False\<rparr>, Some 0),
        (''gen'', \<lparr>priority = 1, preemptible = 2, restart = False\<rparr>, Some 0)]"
proof -
  let ?d = "\<lambda>k::nat. if k = 0 then Finite 2 else if k = 1 then Finite 3 else Finite (-1)"
  let ?w = "gen_start (Generator_ctor None ''gen'' 1 (Some 0) ?d
               \<lparr>priority = 1, preemptible = 2, restart = False\<rparr>)
             \<lparr>cells = (\<lambda>p. None), fresh = 0, freed = []\<rparr>"
  have "\<forall>n. gen_next (gen_fire (n + 3) ?w) = None
          \<and> length (gen_activated (gen_fire (n + 3) ?w)) = 2
          \<and> count_gen (gen (gen_fire (n + 3) ?w)) = 2"
    using Generator_run_effect [of ?w ?d None "''gen''" 1 "Some 0"
        "\<lparr>priority = 1, preemptible = 2, restart = False\<rparr>"
        "\<lparr>cells = (\<lambda>p. None), fresh = 0, freed = []\<rparr>"]
    by simp
  from this [rule_format, of 7]
  have A: "length (gen_activated (gen_fire (7 + 3) ?w)) = 2 \<and> gen_next (gen_fire (7 + 3) ?w) = None"
    by simp
  have B: "map (\<lambda>a. (name a, order a, activity_ptr a)) (gen_activated (gen_fire 2 ?w))
     = [(''gen'', \<lparr>priority = 1, preemptible = 2, restart = False\<rparr>, Some 0),
        (''gen'', \<lparr>priority = 1, preemptible = 2, restart = False\<rparr>, Some 0)]"
    by (simp add: numeral_2_eq_2 gen_start_def Generator_ctor_def Generator_run_def
        Arrival_ctor_def Arrival_ctor_more_def new_int_def Let_def)
  show ?thesis using A B by simp
qed

section \<open>Theorems about running a manager\<close>

lemma Manager_run_step:
  assumes "index (mgr w) < length (duration (mgr w))"
    and "length (value_seq (mgr w)) = length (duration (mgr w))"
  shows "Manager_run w =
     Inr (w\<lparr>mgr_now := mgr_now w + duration (mgr w) ! index (mgr w),
            mgr_applied := mgr_applied w @
               [(value_seq (mgr w) ! index (mgr w), mgr_now w + duration (mgr w) ! index (mgr w))],
            mgr := (mgr w)\<lparr>index :=
               (if Suc (index (mgr w)) = length (duration (mgr w)) \<and> 0 <s period (mgr w) then 0
                else Suc (index (mgr w)))\<rparr>,
            mgr_scheduled := (mgr_scheduled w \<and>
               (Suc (index (mgr w)) = length (duration (mgr w)) \<longrightarrow> 0 <s period (mgr w)))\<rparr>)"
  using assms by (simp add: Manager_run_def Let_def)

lemma mgr_time_Suc:
  assumes "0 < length (duration m)"
  shows "mgr_time m (Suc j) = mgr_time m j + duration m ! (j mod length (duration m))"
proof -
  let ?n = "length (duration m)"
  let ?i = "j mod ?n"
  have i: "?i < ?n" using assms by simp
  have tk: "sum_list (take (Suc ?i) (duration m)) = sum_list (take ?i (duration m)) + duration m ! ?i"
    using i by (simp add: take_Suc_conv_app_nth)
  show ?thesis
  proof (cases "Suc ?i = ?n")
    case True
    then have "Suc j mod ?n = 0" "Suc j div ?n = Suc (j div ?n)"
      by (simp_all add: mod_Suc div_Suc)
    moreover have "sum_list (take (Suc ?i) (duration m)) = sum_list (duration m)"
      using True by simp
    ultimately show ?thesis using tk by (simp add: mgr_time_def algebra_simps)
  next
    case False
    then have "Suc j mod ?n = Suc ?i" "Suc j div ?n = j div ?n"
      by (simp_all add: mod_Suc div_Suc)
    then show ?thesis using tk by (simp add: mgr_time_def)
  qed
qed

lemma mgr_entry_time:
  assumes "0 < length (duration m)"
  shows "mgr_entry m j = (value_seq m ! (j mod length (duration m)), mgr_time m (Suc j))"
proof -
  have i: "j mod length (duration m) < length (duration m)" using assms by simp
  have "mgr_time m j + duration m ! (j mod length (duration m)) =
          real (j div length (duration m)) * sum_list (duration m)
          + sum_list (take (Suc (j mod length (duration m))) (duration m))"
    using i by (simp add: mgr_time_def take_Suc_conv_app_nth)
  then show ?thesis
    unfolding mgr_time_Suc [OF assms] by (simp add: mgr_entry_def Let_def)
qed

lemma mgr_after_step:
  assumes n: "0 < length (duration m)" and v: "length (value_seq m) = length (duration m)"
    and p: "0 <s period m"
  shows "Manager_run (mgr_after m j) = Inr (mgr_after m (Suc j))"
proof -
  let ?w = "mgr_after m j"
  have i: "index (mgr ?w) < length (duration (mgr ?w))" using n by (simp add: mgr_after_def)
  have v': "length (value_seq (mgr ?w)) = length (duration (mgr ?w))"
    using v by (simp add: mgr_after_def)
  show ?thesis
    unfolding Manager_run_step [OF i v']
    by (simp add: mgr_after_def mgr_entry_time [OF n] mgr_time_Suc [OF n] mod_Suc p)
qed

lemma mgr_fire_repeat:
  assumes n: "0 < length (duration m)" and v: "length (value_seq m) = length (duration m)"
    and p: "0 <s period m"
  shows "mgr_fire k (mgr_after m j) = Inr (mgr_after m (j + k))"
proof (induction k arbitrary: j)
  case 0
  show ?case by simp
next
  case (Suc k)
  have s: "mgr_scheduled (mgr_after m j)" by (simp add: mgr_after_def)
  show ?case
    using Suc [of "Suc j"] by (simp add: s mgr_after_step [OF n v p])
qed

lemma mgr_start_after: "index m = 0 \<Longrightarrow> mgr_start m = mgr_after m 0"
  by (simp add: mgr_start_def mgr_after_def mgr_time_def)


lemma mgr_once_step:
  assumes j: "j < length (duration m)" and v: "length (value_seq m) = length (duration m)"
    and p: "\<not> 0 <s period m"
  shows "Manager_run (mgr_once m j) = Inr (mgr_once m (Suc j))"
proof -
  let ?w = "mgr_once m j"
  have i: "index (mgr ?w) < length (duration (mgr ?w))" using j by (simp add: mgr_once_def)
  have v': "length (value_seq (mgr ?w)) = length (duration (mgr ?w))"
    using v by (simp add: mgr_once_def)
  have e: "mgr_entry m j = (value_seq m ! j, sum_list (take j (duration m)) + duration m ! j)"
    using j by (simp add: mgr_entry_def Let_def take_Suc_conv_app_nth)
  show ?thesis
    unfolding Manager_run_step [OF i v']
    using j by (auto simp: mgr_once_def e p take_Suc_conv_app_nth)
qed

lemma mgr_fire_once:
  assumes v: "length (value_seq m) = length (duration m)" and p: "\<not> 0 <s period m"
  shows "j \<le> length (duration m) \<Longrightarrow>
           mgr_fire k (mgr_once m j) = Inr (mgr_once m (min (j + k) (length (duration m))))"
proof (induction k arbitrary: j)
  case 0
  then show ?case by (simp add: min_def)
next
  case (Suc k)
  show ?case
  proof (cases "j < length (duration m)")
    case True
    then have s: "mgr_scheduled (mgr_once m j)" by (simp add: mgr_once_def)
    have "Suc j \<le> length (duration m)" using True by simp
    from Suc.IH [OF this] show ?thesis
      by (simp add: s mgr_once_step [OF True v p])
  next
    case False
    then have "j = length (duration m)" using Suc.prems by simp
    then show ?thesis by (simp add: mgr_once_def)
  qed
qed

lemma mgr_start_once:
  "0 < length (duration m) \<Longrightarrow> index m = 0 \<Longrightarrow> mgr_start m = mgr_once m 0"
  by (simp add: mgr_start_def mgr_once_def)

text \<open>
  C5. A manager with \<open>n\<close> durations and as many values, \<open>0 < n < 2 ^ 32\<close>, starts at
  index 0.
  With \<open>period > 0\<close> it never stops: for every \<open>k\<close>, \<open>k\<close> firings succeed, leave it
  scheduled with index \<open>k mod n\<close>, and have applied exactly the \<open>k\<close> first entries
  of the repeating schedule. With \<open>period \<le> 0\<close> the firings apply the first \<open>n\<close>
  entries and no more, and the manager is scheduled exactly as long as fewer than
  \<open>n\<close> firings have happened. One firing applies \<open>value[index]\<close> at the time
  \<open>now + duration[index]\<close> and advances the index, back to 0 at the end when
  \<open>period > 0\<close>.
\<close>

theorem Manager_schedule:
  assumes "0 < length (duration m)" and "length (value_seq m) = length (duration m)"
    and "index m = 0" and "length (duration m) < 2 ^ 32"
  shows "(0 <s period m \<longrightarrow>
            (\<exists>w. mgr_fire k (mgr_start m) = Inr w \<and> mgr_scheduled w
                \<and> index (mgr w) = k mod length (duration m)
                \<and> mgr_applied w = map (mgr_entry m) [0..<k]))
       \<and> (\<not> 0 <s period m \<longrightarrow>
            (\<exists>w. mgr_fire k (mgr_start m) = Inr w
                \<and> (mgr_scheduled w \<longleftrightarrow> k < length (duration m))
                \<and> mgr_applied w = map (mgr_entry m) [0..<min k (length (duration m))]))
       \<and> (\<forall>w. index (mgr w) < length (duration (mgr w))
               \<and> length (value_seq (mgr w)) = length (duration (mgr w)) \<longrightarrow>
            (\<exists>w'. Manager_run w = Inr w'
                \<and> mgr_now w' = mgr_now w + duration (mgr w) ! index (mgr w)
                \<and> mgr_applied w' = mgr_applied w @
                     [(value_seq (mgr w) ! index (mgr w),
                       mgr_now w + duration (mgr w) ! index (mgr w))]
                \<and> index (mgr w') =
                     (if Suc (index (mgr w)) = length (duration (mgr w)) \<and> 0 <s period (mgr w)
                      then 0 else Suc (index (mgr w)))))"
proof (intro conjI impI allI)
  assume p: "0 <s period m"
  have "mgr_fire k (mgr_start m) = Inr (mgr_after m k)"
    using mgr_fire_repeat [OF assms(1,2) p, of k 0] by (simp add: mgr_start_after [OF assms(3)])
  then show "\<exists>w. mgr_fire k (mgr_start m) = Inr w \<and> mgr_scheduled w
                \<and> index (mgr w) = k mod length (duration m)
                \<and> mgr_applied w = map (mgr_entry m) [0..<k]"
    by (simp add: mgr_after_def)
next
  assume p: "\<not> 0 <s period m"
  have "mgr_fire k (mgr_start m) = Inr (mgr_once m (min k (length (duration m))))"
    using mgr_fire_once [OF assms(2) p, of 0 k] by (simp add: mgr_start_once [OF assms(1,3)])
  then show "\<exists>w. mgr_fire k (mgr_start m) = Inr w
                \<and> (mgr_scheduled w \<longleftrightarrow> k < length (duration m))
                \<and> mgr_applied w = map (mgr_entry m) [0..<min k (length (duration m))]"
    by (auto simp: mgr_once_def min_def)
next
  fix w :: mgr_world
  assume "index (mgr w) < length (duration (mgr w))
            \<and> length (value_seq (mgr w)) = length (duration (mgr w))"
  then have i: "index (mgr w) < length (duration (mgr w))"
    and v: "length (value_seq (mgr w)) = length (duration (mgr w))" by simp_all
  show "\<exists>w'. Manager_run w = Inr w'
          \<and> mgr_now w' = mgr_now w + duration (mgr w) ! index (mgr w)
          \<and> mgr_applied w' = mgr_applied w @
               [(value_seq (mgr w) ! index (mgr w),
                 mgr_now w + duration (mgr w) ! index (mgr w))]
          \<and> index (mgr w') =
               (if Suc (index (mgr w)) = length (duration (mgr w)) \<and> 0 <s period (mgr w)
                then 0 else Suc (index (mgr w)))"
    unfolding Manager_run_step [OF i v] by simp
qed

theorem Manager_schedule_witness:
  "(\<exists>w. mgr_fire 4 (mgr_start (Manager_ctor None ''mgr'' ''capacity'' [1, 2] [10, 20] 2)) = Inr w
        \<and> mgr_scheduled w
        \<and> mgr_applied w = [(10, 1), (20, 3), (10, 4), (20, 6)])
   \<and> (\<exists>w. mgr_fire 5 (mgr_start (Manager_ctor None ''mgr'' ''capacity'' [1, 2] [10, 20] 0)) = Inr w
        \<and> \<not> mgr_scheduled w
        \<and> mgr_applied w = [(10, 1), (20, 3)])"
proof -
  let ?m = "Manager_ctor None ''mgr'' ''capacity'' [1, 2] [10, 20] 2"
  let ?z = "Manager_ctor None ''mgr'' ''capacity'' [1, 2] [10, 20] 0"
  have u4: "[0..<4] = [0, 1, 2, 3::nat]" and u2: "[0..<2] = [0, 1::nat]" by code_simp+
  have h: "0 < length (duration ?m)" "length (value_seq ?m) = length (duration ?m)" "index ?m = 0"
    "length (duration ?m) < 2 ^ 32"
    by (simp_all add: Manager_ctor_def)
  have h0: "0 < length (duration ?z)" "length (value_seq ?z) = length (duration ?z)"
    "index ?z = 0" "length (duration ?z) < 2 ^ 32"
    by (simp_all add: Manager_ctor_def)
  have p: "0 <s period ?m" and p0: "\<not> 0 <s period ?z"
    by (simp_all add: Manager_ctor_def word_sless_alt)
  have e: "map (mgr_entry ?m) [0..<4] = [(10, 1), (20, 3), (10, 4), (20, 6)]"
    unfolding u4 by (simp add: mgr_entry_def Manager_ctor_def Let_def flip: numeral_2_eq_2)
  have e0: "map (mgr_entry ?z) [0..<min 5 (length (duration ?z))] = [(10, 1), (20, 3)]"
    by (simp add: mgr_entry_def Manager_ctor_def Let_def u2 flip: numeral_2_eq_2)
  have 1: "\<exists>w. mgr_fire 4 (mgr_start ?m) = Inr w \<and> mgr_scheduled w
             \<and> mgr_applied w = [(10, 1), (20, 3), (10, 4), (20, 6)]"
    using Manager_schedule [OF h, of 4] p unfolding e by blast
  have 2: "\<exists>w. mgr_fire 5 (mgr_start ?z) = Inr w \<and> \<not> mgr_scheduled w
             \<and> mgr_applied w = [(10, 1), (20, 3)]"
    using Manager_schedule [OF h0, of 5] p0 unfolding e0 by (auto simp: Manager_ctor_def)
  show ?thesis using 1 2 by simp
qed


end
